theory Spec2Isabelle
  imports Main "HOL-Library.Sublist" "HOL-Library.Word"
begin

section \<open>The API client (services/api.ts)\<close>

text \<open>
  The client is one axios instance with a base URL and a timeout, a request interceptor
  that only logs, and a response interceptor whose error branch turns every rejection
  into a thrown \<open>Error\<close> with a fixed message. The three exported operations issue one
  request each through that instance and return \<open>response.data\<close>.

  The network is the environment: a function from the request that axios finally sends to
  the way axios settles it before the response interceptor runs, either fulfilled with a
  response or rejected with an axios error. Axios rejects a response whose status is outside
  2xx with an error that carries the response, and rejects a request that ran into its
  timeout with code \<open>ECONNABORTED\<close> and no response. The client does not look
  into the body of a fulfilled response, so the body's type is a parameter of the
  operation that returns it. The interceptors' console output is left out.
\<close>

datatype js_error = Error string

record 'd axios_response =
  http_status :: nat
  data :: 'd

text \<open>The body of an error response, as far as the interceptor reads it: \<open>data.detail\<close>,
  a string when it is there.\<close>

record error_body =
  detail :: "string option"

record axios_error =
  response :: "error_body axios_response option"
  code :: "string option"
  message :: string

datatype 'd settled = Fulfilled "'d axios_response" | Rejected axios_error

record axios_defaults =
  baseURL :: string
  timeout :: nat

datatype 'f form_value = FileV 'f | StrV string

type_synonym 'f FormData = "(string \<times> 'f form_value) list"

record 'f request =
  req_method :: string
  req_url :: string
  req_baseURL :: string
  req_timeout :: nat
  req_headers :: "(string \<times> string) list"
  req_data :: "'f FormData option"

text \<open>\<open>process.env.REACT_APP_API_URL || 'http://localhost:8000'\<close>: an unset or empty
  variable is falsy.\<close>

definition API_BASE_URL :: "string option \<Rightarrow> string" where
  "API_BASE_URL env =
     (case env of
        None \<Rightarrow> ''http://localhost:8000''
      | Some u \<Rightarrow> if u = [] then ''http://localhost:8000'' else u)"

definition api :: "string option \<Rightarrow> axios_defaults" where
  "api env = \<lparr>baseURL = API_BASE_URL env, timeout = 30000\<rparr>"

text \<open>The error branch of the response interceptor; each branch throws, so the result is
  the thrown error. \<open>error.response?.status\<close> is undefined without a response, and
  \<open>a || b\<close> takes \<open>b\<close> when \<open>a\<close> is undefined or the empty string.\<close>

definition response_status :: "axios_error \<Rightarrow> nat option" where
  "response_status e = map_option http_status (response e)"

definition response_detail :: "axios_error \<Rightarrow> string option" where
  "response_detail e = (case response e of None \<Rightarrow> None | Some r \<Rightarrow> detail (data r))"

definition truthy :: "string option \<Rightarrow> bool" where
  "truthy v = (case v of None \<Rightarrow> False | Some s \<Rightarrow> s \<noteq> [])"

definition on_response_error :: "axios_error \<Rightarrow> js_error" where
  "on_response_error e =
     (if response_status e = Some 404 then Error ''Resource not found''
      else if response_status e = Some 500 then Error ''Server error occurred''
      else if code e = Some ''ECONNABORTED'' then Error ''Request timed out''
      else if response e = None
        then Error ''Network error - please check if the backend is running''
      else if truthy (response_detail e) then Error (the (response_detail e))
      else if message e \<noteq> [] then Error (message e)
      else Error ''An error occurred'')"

text \<open>\<open>api.post\<close> and \<open>api.get\<close>: the instance defaults merged with the call's own
  configuration (which never sets a timeout), the request interceptor (identity on the
  configuration), the network, then the response interceptor.\<close>

definition api_post ::
  "axios_defaults \<Rightarrow> string \<Rightarrow> 'f FormData \<Rightarrow> (string \<times> string) list \<Rightarrow> 'f request" where
  "api_post inst url body hdrs =
     \<lparr>req_method = ''post'', req_url = url, req_baseURL = baseURL inst,
      req_timeout = timeout inst, req_headers = hdrs, req_data = Some body\<rparr>"

definition api_get :: "axios_defaults \<Rightarrow> string \<Rightarrow> 'f request" where
  "api_get inst url =
     \<lparr>req_method = ''get'', req_url = url, req_baseURL = baseURL inst,
      req_timeout = timeout inst, req_headers = [], req_data = None\<rparr>"

definition dispatch :: "('f request \<Rightarrow> 'd settled) \<Rightarrow> 'f request \<Rightarrow> js_error + 'd axios_response" where
  "dispatch net req =
     (case net req of
        Fulfilled r \<Rightarrow> Inr r
      | Rejected e \<Rightarrow> Inl (on_response_error e))"

record UploadResponse =
  upload_job_id :: string
  upload_message :: string

record JobStatusResponse =
  job_id :: string
  status :: string
  created_at :: string
  ocr_done :: bool
  llm_done :: bool
  lesson_built :: bool
  lesson_id :: "string option"
  error :: "string option"

definition upload_request :: "string option \<Rightarrow> 'f FormData \<Rightarrow> 'f request" where
  "upload_request env formData =
     api_post (api env) ''/upload'' formData [(''Content-Type'', ''multipart/form-data'')]"

definition status_request :: "string option \<Rightarrow> string \<Rightarrow> 'f request" where
  "status_request env jobId = api_get (api env) (''/status/'' @ jobId)"

definition lesson_request :: "string option \<Rightarrow> string \<Rightarrow> 'f request" where
  "lesson_request env lessonId = api_get (api env) (''/lesson/'' @ lessonId)"

definition uploadImages ::
  "string option \<Rightarrow> ('f request \<Rightarrow> UploadResponse settled) \<Rightarrow> 'f FormData \<Rightarrow> js_error + UploadResponse" where
  "uploadImages env net formData =
     (case dispatch net (upload_request env formData) of
        Inl e \<Rightarrow> Inl e
      | Inr r \<Rightarrow> Inr (data r))"

text \<open>
  \<open>getJobStatus\<close> returns \<open>response.data\<close> as it came; the annotation
  \<open>Promise<JobStatusResponse>\<close> is erased at run time. The body type \<open>'d\<close> is the record
  \<open>JobStatusResponse\<close> where the caller reads the result under that annotation, and the
  run-time value \<open>json\<close> where the shape of what comes back is the question.
\<close>

definition getJobStatus ::
  "string option \<Rightarrow> ('f request \<Rightarrow> 'd settled) \<Rightarrow> string \<Rightarrow> js_error + 'd" where
  "getJobStatus env net jobId =
     (case dispatch net (status_request env jobId) of
        Inl e \<Rightarrow> Inl e
      | Inr r \<Rightarrow> Inr (data r))"

definition getLesson ::
  "string option \<Rightarrow> ('f request \<Rightarrow> 'l settled) \<Rightarrow> string \<Rightarrow> js_error + 'l" where
  "getLesson env net lessonId =
     (case dispatch net (lesson_request env lessonId) of
        Inl e \<Rightarrow> Inl e
      | Inr r \<Rightarrow> Inr (data r))"

subsection \<open>Response bodies as run-time values\<close>

text \<open>
  A parsed JSON body. An object is the list of its properties; the keys of a parsed object
  are distinct.
\<close>

datatype json =
    JNull
  | JBool bool
  | JNumber int
  | JString string
  | JArray "json list"
  | JObject "(string \<times> json) list"

text \<open>
  The interface \<open>JobStatusResponse\<close> read as a test on a run-time value: an object whose
  properties are among the eight declared names, with the six required ones present, the
  strings strings and the booleans booleans. The code has no such test.
\<close>

definition is_string :: "json option \<Rightarrow> bool" where
  "is_string v = (case v of Some (JString _) \<Rightarrow> True | _ \<Rightarrow> False)"

definition is_boolean :: "json option \<Rightarrow> bool" where
  "is_boolean v = (case v of Some (JBool _) \<Rightarrow> True | _ \<Rightarrow> False)"

definition is_optional_string :: "json option \<Rightarrow> bool" where
  "is_optional_string v = (case v of None \<Rightarrow> True | Some (JString _) \<Rightarrow> True | _ \<Rightarrow> False)"

definition JobStatusResponse_keys :: "string list" where
  "JobStatusResponse_keys =
     [''job_id'', ''status'', ''created_at'', ''ocr_done'', ''llm_done'', ''lesson_built'',
      ''lesson_id'', ''error'']"

definition is_JobStatusResponse :: "json \<Rightarrow> bool" where
  "is_JobStatusResponse v =
     (case v of
        JObject props \<Rightarrow>
          distinct (map fst props) \<and>
          list_all (\<lambda>k. k \<in> set JobStatusResponse_keys) (map fst props) \<and>
          is_string (map_of props ''job_id'') \<and>
          is_string (map_of props ''status'') \<and>
          is_string (map_of props ''created_at'') \<and>
          is_boolean (map_of props ''ocr_done'') \<and>
          is_boolean (map_of props ''llm_done'') \<and>
          is_boolean (map_of props ''lesson_built'') \<and>
          is_optional_string (map_of props ''lesson_id'') \<and>
          is_optional_string (map_of props ''error'')
      | _ \<Rightarrow> False)"

text \<open>The object that carries a record of the declared type; an unset optional field is
  left out.\<close>

definition object_of :: "JobStatusResponse \<Rightarrow> (string \<times> json) list" where
  "object_of r =
     [(''job_id'', JString (job_id r)), (''status'', JString (status r)),
      (''created_at'', JString (created_at r)), (''ocr_done'', JBool (ocr_done r)),
      (''llm_done'', JBool (llm_done r)), (''lesson_built'', JBool (lesson_built r))] @
     (case lesson_id r of None \<Rightarrow> [] | Some l \<Rightarrow> [(''lesson_id'', JString l)]) @
     (case error r of None \<Rightarrow> [] | Some e \<Rightarrow> [(''error'', JString e)])"


section \<open>The upload page (pages/UploadPage.tsx)\<close>

text \<open>
  An \<open>ImageFile\<close> holds the browser's file object, the object URL of its preview and the
  optional tag. The page keeps the list handed up by the upload component, a busy flag
  and the error shown to the user.
\<close>

record 'f ImageFile =
  file' :: 'f
  preview :: string
  tag :: "string option"

record 'f UploadPage =
  files :: "'f ImageFile list"
  isUploading :: bool
  upload_error :: "string option"

text \<open>Decimal rendering of a number in a template literal.\<close>

definition digit_char :: "nat \<Rightarrow> char" where
  "digit_char d = ''0123456789'' ! d"

function string_of_nat :: "nat \<Rightarrow> string" where
  "string_of_nat n =
     (if n < 10 then [digit_char n]
      else string_of_nat (n div 10) @ [digit_char (n mod 10)])"
  by pat_completeness auto
termination
  by (relation "measure id") auto

declare string_of_nat.simps [simp del]

text \<open>\<open>fileObj.tag || `pic${index + 1}`\<close>\<close>

definition default_tag :: "nat \<Rightarrow> string" where
  "default_tag index = ''pic'' @ string_of_nat (index + 1)"

definition tag_or_default :: "nat \<Rightarrow> 'f ImageFile \<Rightarrow> string" where
  "tag_or_default index fileObj =
     (if truthy (tag fileObj) then the (tag fileObj) else default_tag index)"

text \<open>The \<open>forEach\<close> loop pushes one tag per file, in order.\<close>

definition upload_tags :: "'f ImageFile list \<Rightarrow> string list" where
  "upload_tags fs = map (\<lambda>(index, fileObj). tag_or_default index fileObj) (enumerate 0 fs)"

text \<open>\<open>Array.prototype.join\<close>\<close>

fun join :: "string \<Rightarrow> string list \<Rightarrow> string" where
  "join sep [] = []"
| "join sep [t] = t"
| "join sep (t # u # ts) = t @ sep @ join sep (u # ts)"

definition build_formData :: "'f ImageFile list \<Rightarrow> 'f FormData" where
  "build_formData fs =
     map (\<lambda>fileObj. (''files'', FileV (file' fileObj))) fs @
     (if length (upload_tags fs) > 0 then [(''tags'', StrV (join '','' (upload_tags fs)))] else [])"

text \<open>
  \<open>handleUpload\<close> returns the page state once the handler has finished, the requests it
  issued and the route it navigated to, if any. The \<open>finally\<close> block clears the busy flag
  on both ways out of the \<open>try\<close>.
\<close>

definition handleUpload ::
  "string option \<Rightarrow> ('f request \<Rightarrow> UploadResponse settled) \<Rightarrow> 'f UploadPage \<Rightarrow>
     'f UploadPage \<times> 'f request list \<times> string option" where
  "handleUpload env net s =
     (if length (files s) = 0
      then (s\<lparr>upload_error := Some ''Please select at least one image to upload''\<rparr>, [], None)
      else
        let formData = build_formData (files s) in
        (case uploadImages env net formData of
           Inr resp \<Rightarrow>
             (s\<lparr>isUploading := False, upload_error := None\<rparr>,
              [upload_request env formData],
              Some (''/status/'' @ upload_job_id resp))
         | Inl (Error m) \<Rightarrow>
             (s\<lparr>isUploading := False, upload_error := Some m\<rparr>,
              [upload_request env formData],
              None)))"

section \<open>The upload component (components/ImageUpload.tsx)\<close>

text \<open>
  The component's state is the list of held files; every handler also passes the new list
  to \<open>onFilesChange\<close>, so the page's \<open>files\<close> is the same list. A drop delivers the accepted
  files, each with the object URL that \<open>URL.createObjectURL\<close> returned for it.
  \<open>maxFiles\<close> and the indices are JavaScript numbers, taken as integers here.
\<close>

text \<open>\<open>xs.slice(0, end)\<close>: a negative end counts from the end of the array.\<close>

definition slice0 :: "int \<Rightarrow> 'a list \<Rightarrow> 'a list" where
  "slice0 e xs = (if e < 0 then take (nat (int (length xs) + e)) xs else take (nat e) xs)"

definition onDrop :: "int \<Rightarrow> ('f \<times> string) list \<Rightarrow> 'f ImageFile list \<Rightarrow> 'f ImageFile list" where
  "onDrop maxFiles acceptedFiles fs =
     slice0 maxFiles
       (fs @ map (\<lambda>(f, url). \<lparr>file' = f, preview = url, tag = Some []\<rparr>) acceptedFiles)"

definition removeFile :: "int \<Rightarrow> 'f ImageFile list \<Rightarrow> 'f ImageFile list" where
  "removeFile index fs = map snd (filter (\<lambda>(i, _). int i \<noteq> index) (enumerate 0 fs))"

definition updateTag :: "int \<Rightarrow> string \<Rightarrow> 'f ImageFile list \<Rightarrow> 'f ImageFile list" where
  "updateTag index t fs =
     map (\<lambda>(i, f). if int i = index then f\<lparr>tag := Some t\<rparr> else f) (enumerate 0 fs)"

datatype 'f upload_event = Drop "('f \<times> string) list" | Remove int | UpdateTag int string

fun upload_step :: "int \<Rightarrow> 'f ImageFile list \<Rightarrow> 'f upload_event \<Rightarrow> 'f ImageFile list" where
  "upload_step maxFiles fs (Drop acceptedFiles) = onDrop maxFiles acceptedFiles fs"
| "upload_step maxFiles fs (Remove index) = removeFile index fs"
| "upload_step maxFiles fs (UpdateTag index t) = updateTag index t fs"

text \<open>The component starts with no files and handles events one at a time.\<close>

definition upload_run :: "int \<Rightarrow> 'f upload_event list \<Rightarrow> 'f ImageFile list" where
  "upload_run maxFiles evs = foldl (upload_step maxFiles) [] evs"

section \<open>The lesson viewer (components/LessonViewer.tsx)\<close>

text \<open>
  The viewer's step index starts at 0. \<open>nextStep\<close> and \<open>prevStep\<close> are guarded; a dot
  button exists for each index of \<open>lesson.steps\<close>, and only when there is more than one
  step. A click on a dot that is not rendered is no event and leaves the index alone.
\<close>

definition nextStep :: "'a list \<Rightarrow> int \<Rightarrow> int" where
  "nextStep steps currentStepIndex =
     (if currentStepIndex < int (length steps) - 1 then currentStepIndex + 1
      else currentStepIndex)"

definition prevStep :: "int \<Rightarrow> int" where
  "prevStep currentStepIndex =
     (if currentStepIndex > 0 then currentStepIndex - 1 else currentStepIndex)"

definition dot_buttons :: "'a list \<Rightarrow> nat list" where
  "dot_buttons steps = (if length steps > 1 then map fst (enumerate 0 steps) else [])"

datatype viewer_event = NextStep | PrevStep | DotButton nat

fun viewer_step :: "'a list \<Rightarrow> int \<Rightarrow> viewer_event \<Rightarrow> int" where
  "viewer_step steps i NextStep = nextStep steps i"
| "viewer_step steps i PrevStep = prevStep i"
| "viewer_step steps i (DotButton index) =
     (if index \<in> set (dot_buttons steps) then int index else i)"

definition viewer_run :: "'a list \<Rightarrow> viewer_event list \<Rightarrow> int" where
  "viewer_run steps evs = foldl (viewer_step steps) 0 evs"

text \<open>\<open>lesson.steps[currentStepIndex]\<close>, undefined outside the array.\<close>

definition currentStep :: "'a list \<Rightarrow> int \<Rightarrow> 'a option" where
  "currentStep steps i =
     (if 0 \<le> i \<and> i < int (length steps) then Some (steps ! nat i) else None)"

section \<open>The status page (pages/StatusPage.tsx)\<close>

record StatusPage =
  jobStatus :: "JobStatusResponse option"
  loading :: bool
  poll_error :: "string option"

text \<open>
  One run of \<open>pollStatus\<close>: the page state afterwards and the delay of the timer it set
  for the next run, if it set one.
\<close>

definition pollStatus ::
  "string option \<Rightarrow> ('f request \<Rightarrow> JobStatusResponse settled) \<Rightarrow> string \<Rightarrow> StatusPage \<Rightarrow>
     StatusPage \<times> nat option" where
  "pollStatus env net jobId s =
     (case getJobStatus env net jobId of
        Inl (Error m) \<Rightarrow> (s\<lparr>poll_error := Some m, loading := False\<rparr>, None)
      | Inr st \<Rightarrow>
          let s1 = s\<lparr>jobStatus := Some st, poll_error := None\<rparr> in
          if status st = ''completed'' \<and> truthy (lesson_id st) then (s1\<lparr>loading := False\<rparr>, None)
          else if status st = ''error'' then (s1\<lparr>loading := False\<rparr>, None)
          else if status st \<noteq> ''completed'' then (s1, Some 2000)
          else (s1\<lparr>loading := False\<rparr>, None))"

text \<open>
  The polling sequence: the network may answer each request differently, so it is given as
  the list of its behaviours at the successive requests. The result is the final page
  state, the number of status requests issued and the delays of the timers set. When the
  list runs out after a timer was set, that timer is still pending.
\<close>

fun polling ::
  "string option \<Rightarrow> ('f request \<Rightarrow> JobStatusResponse settled) list \<Rightarrow> string \<Rightarrow> StatusPage \<Rightarrow>
     StatusPage \<times> nat \<times> nat list" where
  "polling env [] jobId s = (s, 0, [])"
| "polling env (net # nets) jobId s =
     (case pollStatus env net jobId s of
        (s', None) \<Rightarrow> (s', 1, [])
      | (s', Some delay) \<Rightarrow>
          (case polling env nets jobId s' of (s'', n, delays) \<Rightarrow> (s'', Suc n, delay # delays)))"

text \<open>The effect: without a job id it reports an error and never polls.\<close>

definition statusPage_effect ::
  "string option \<Rightarrow> ('f request \<Rightarrow> JobStatusResponse settled) list \<Rightarrow> string option \<Rightarrow> StatusPage \<Rightarrow>
     StatusPage \<times> nat \<times> nat list" where
  "statusPage_effect env nets jobId s =
     (if \<not> truthy jobId then (s\<lparr>poll_error := Some ''No job ID provided'', loading := False\<rparr>, 0, [])
      else polling env nets (the jobId) s)"

text \<open>What the page observes in one answer: a terminal status or a failed request.\<close>

definition terminal :: "js_error + JobStatusResponse \<Rightarrow> bool" where
  "terminal r =
     (case r of Inl _ \<Rightarrow> True | Inr st \<Rightarrow> status st = ''completed'' \<or> status st = ''error'')"


text \<open>
  The tag rule as the specification words it: the default also replaces a tag that
  duplicates another image's tag.
\<close>

definition duplicates_another :: "'f ImageFile list \<Rightarrow> nat \<Rightarrow> bool" where
  "duplicates_another fs k = (tag (fs ! k) \<in> set (map tag (take k fs @ drop (Suc k) fs)))"

definition claimed_tag :: "'f ImageFile list \<Rightarrow> nat \<Rightarrow> string" where
  "claimed_tag fs k =
     (if \<not> truthy (tag (fs ! k)) \<or> duplicates_another fs k then default_tag k
      else the (tag (fs ! k)))"

section \<open>The math renderer (components/MathRenderer.tsx)\<close>

text \<open>
  A JavaScript string is a sequence of 16-bit code units; the regular expressions have no
  \<open>u\<close> flag, so they work on code units too.
\<close>

type_synonym code_unit = "16 word"
type_synonym js_string = "code_unit list"

definition js :: "string \<Rightarrow> js_string" where
  "js s = map of_char s"

definition backslash :: code_unit where
  "backslash = 0x5C"

definition close_brace :: code_unit where
  "close_brace = of_char CHR ''}''"

definition open_brace :: code_unit where
  "open_brace = of_char CHR ''{''"

subsection \<open>The two regular expressions and \<open>String.prototype.replace\<close>\<close>

text \<open>
  Both patterns are a sequence of atoms: literal text, and the capturing group
  \<open>([^c]+)\<close> of one or more code units other than \<open>c\<close>. The group is greedy: it takes the
  longest run first and gives code units back one at a time while the rest of the pattern
  fails. \<open>rx_match\<close> matches at the start of the input and returns the captures and the
  input left after the match.
\<close>

datatype 'a rx_atom = Lit "'a list" | CapPlusNot 'a

primrec first_match :: "(nat \<Rightarrow> 'b option) \<Rightarrow> nat \<Rightarrow> 'b option" where
  "first_match f 0 = None"
| "first_match f (Suc n) = (case f (Suc n) of Some r \<Rightarrow> Some r | None \<Rightarrow> first_match f n)"

fun rx_match :: "'a rx_atom list \<Rightarrow> 'a list \<Rightarrow> ('a list list \<times> 'a list) option" where
  "rx_match [] s = Some ([], s)"
| "rx_match (Lit l # rs) s =
     (if prefix l s then rx_match rs (drop (length l) s) else None)"
| "rx_match (CapPlusNot c # rs) s =
     first_match
       (\<lambda>n. case rx_match rs (drop n s) of
               None \<Rightarrow> None
             | Some (caps, rest) \<Rightarrow> Some (take n s # caps, rest))
       (length (takeWhile (\<lambda>x. x \<noteq> c) s))"

text \<open>
  \<open>s.replace(re, f)\<close> with the \<open>g\<close> flag: the leftmost match is replaced and the search
  goes on behind it; where nothing matches the code unit is copied. After an empty match
  the search moves on by one code unit.
\<close>

function js_replace_all :: "'a rx_atom list \<Rightarrow> ('a list list \<Rightarrow> 'a list) \<Rightarrow> 'a list \<Rightarrow> 'a list" where
  "js_replace_all re f [] = (case rx_match re [] of None \<Rightarrow> [] | Some (caps, rest) \<Rightarrow> f caps)"
| "js_replace_all re f (x # xs) =
     (case rx_match re (x # xs) of
        None \<Rightarrow> x # js_replace_all re f xs
      | Some (caps, rest) \<Rightarrow>
          if length rest < length (x # xs) then f caps @ js_replace_all re f rest
          else f caps @ x # js_replace_all re f xs)"
  by pat_completeness auto
termination
  by (relation "measure (\<lambda>(re, f, s). length s)") auto

definition text_open :: js_string where
  "text_open = backslash # js ''text{''"

definition displaystyle :: js_string where
  "displaystyle = backslash # js ''displaystyle''"

text \<open>\<open>/\\text\{([^}]+)\}/g\<close> and \<open>/\\displaystyle/g\<close>\<close>

definition rx_text :: "code_unit rx_atom list" where
  "rx_text = [Lit text_open, CapPlusNot close_brace, Lit [close_brace]]"

definition rx_displaystyle :: "code_unit rx_atom list" where
  "rx_displaystyle = [Lit displaystyle]"

text \<open>The replacement \<open>'\\mathrm{$1}'\<close>; \<open>$1\<close> is the first capture.\<close>

definition mathrm :: "js_string list \<Rightarrow> js_string" where
  "mathrm caps =
     backslash # js ''mathrm{'' @ (case caps of [] \<Rightarrow> [] | c # _ \<Rightarrow> c) @ [close_brace]"

text \<open>\<open>String.prototype.trim\<close> strips ECMAScript white space and line terminators.\<close>

definition is_white_space :: "code_unit \<Rightarrow> bool" where
  "is_white_space c =
     (c \<in> {0x9, 0xA, 0xB, 0xC, 0xD, 0x20, 0xA0, 0x1680, 0x2028, 0x2029, 0x202F, 0x205F,
            0x3000, 0xFEFF} \<or> (0x2000 \<le> c \<and> c \<le> 0x200A))"

definition trim :: "js_string \<Rightarrow> js_string" where
  "trim s = rev (dropWhile is_white_space (rev (dropWhile is_white_space s)))"

definition cleanLatex :: "js_string \<Rightarrow> js_string" where
  "cleanLatex latex =
     trim (js_replace_all rx_displaystyle (\<lambda>caps. [])
             (js_replace_all rx_text mathrm latex))"

subsection \<open>The described behaviour\<close>

text \<open>
  The description of \<open>cleanLatex\<close> in words, as a function of its own: scan for
  \<open>\text{content}\<close>, where the content is a non-empty run of permitted code units that ends
  at a closing brace, and write \<open>\mathrm{content}\<close> for it; then drop every \<open>\displaystyle\<close>;
  then trim. Which code units the content may hold is the parameter \<open>ok\<close>.
\<close>

definition text_occurrence ::
  "(code_unit \<Rightarrow> bool) \<Rightarrow> js_string \<Rightarrow> (js_string \<times> js_string) option" where
  "text_occurrence ok s =
     (if prefix text_open s then
        (let body = drop (length text_open) s;
             content = takeWhile ok body;
             after = dropWhile ok body
         in if content \<noteq> [] \<and> prefix [close_brace] after
            then Some (content, drop 1 after) else None)
      else None)"

function replace_text :: "(code_unit \<Rightarrow> bool) \<Rightarrow> js_string \<Rightarrow> js_string" where
  "replace_text ok [] = []"
| "replace_text ok (x # xs) =
     (case text_occurrence ok (x # xs) of
        None \<Rightarrow> x # replace_text ok xs
      | Some (content, rest) \<Rightarrow>
          backslash # js ''mathrm{'' @ content @ [close_brace] @ replace_text ok rest)"
  by pat_completeness auto
termination
proof (relation "measure (\<lambda>(ok, s). length s)", goal_cases)
  case 1
  show ?case by simp
next
  case (2 ok x xs)
  show ?case by simp
next
  case (3 ok x xs p content rest)
  then have "length rest \<le> length (dropWhile ok (drop (length text_open) (x # xs)))"
    by (auto simp: text_occurrence_def Let_def split: if_splits)
  also have "\<dots> \<le> length (drop (length text_open) (x # xs))"
    by (rule length_dropWhile_le)
  also have "\<dots> < length (x # xs)"
    by (simp add: text_open_def)
  finally show ?case by simp
qed

function delete_displaystyle :: "js_string \<Rightarrow> js_string" where
  "delete_displaystyle [] = []"
| "delete_displaystyle (x # xs) =
     (if prefix displaystyle (x # xs)
      then delete_displaystyle (drop (length displaystyle) (x # xs))
      else x # delete_displaystyle xs)"
  by pat_completeness auto
termination
  by (relation "measure length") (auto simp: displaystyle_def)

definition cleanLatex_described :: "(code_unit \<Rightarrow> bool) \<Rightarrow> js_string \<Rightarrow> js_string" where
  "cleanLatex_described ok latex = trim (delete_displaystyle (replace_text ok latex))"

text \<open>Content without braces, and content without a closing brace.\<close>

definition no_brace :: "code_unit \<Rightarrow> bool" where
  "no_brace c = (c \<noteq> open_brace \<and> c \<noteq> close_brace)"

definition no_close_brace :: "code_unit \<Rightarrow> bool" where
  "no_close_brace c = (c \<noteq> close_brace)"

text \<open>Strings that hold no \<open>\text\<close>, no \<open>\displaystyle\<close> and no white space at either end.\<close>

definition text_cmd :: js_string where
  "text_cmd = backslash # js ''text''"

fun contains :: "'a list \<Rightarrow> 'a list \<Rightarrow> bool" where
  "contains pat [] = (pat = [])"
| "contains pat (x # xs) = (prefix pat (x # xs) \<or> contains pat xs)"

definition edge_white_space :: "js_string \<Rightarrow> bool" where
  "edge_white_space s = (s \<noteq> [] \<and> (is_white_space (hd s) \<or> is_white_space (last s)))"


section \<open>Sample inputs\<close>

definition error_404 :: axios_error where
  "error_404 =
     \<lparr>response = Some \<lparr>http_status = 404, data = \<lparr>detail = Some ''Job not found''\<rparr>\<rparr>,
      code = Some ''ERR_BAD_REQUEST'', message = ''Request failed with status code 404''\<rparr>"

definition error_timeout :: axios_error where
  "error_timeout =
     \<lparr>response = None, code = Some ''ECONNABORTED'', message = ''timeout of 30000ms exceeded''\<rparr>"

definition snapshot :: "string \<Rightarrow> string option \<Rightarrow> JobStatusResponse" where
  "snapshot st lid =
     \<lparr>job_id = ''j1'', status = st, created_at = ''2024-01-01T00:00:00'', ocr_done = True,
      llm_done = False, lesson_built = False, lesson_id = lid, error = None\<rparr>"

definition answers :: "string \<Rightarrow> string option \<Rightarrow> string request \<Rightarrow> JobStatusResponse settled" where
  "answers st lid req = Fulfilled \<lparr>http_status = 200, data = snapshot st lid\<rparr>"

definition picture :: "string \<Rightarrow> string option \<Rightarrow> string ImageFile" where
  "picture name t = \<lparr>file' = name, preview = ''blob:'' @ name, tag = t\<rparr>"

definition page0 :: "string UploadPage" where
  "page0 = \<lparr>files = [], isUploading = False, upload_error = None\<rparr>"

definition status0 :: StatusPage where
  "status0 = \<lparr>jobStatus = None, loading = True, poll_error = None\<rparr>"

section \<open>The response interceptor and the three operations\<close>

lemma on_response_error_404:
  "response_status e = Some 404 \<Longrightarrow> on_response_error e = Error ''Resource not found''"
  by (simp add: on_response_error_def)

lemma on_response_error_timeout:
  "response_status e \<noteq> Some 404 \<Longrightarrow> response_status e \<noteq> Some 500 \<Longrightarrow>
   code e = Some ''ECONNABORTED'' \<Longrightarrow> on_response_error e = Error ''Request timed out''"
  by (simp add: on_response_error_def)

lemma dispatch_Rejected: "net req = Rejected e \<Longrightarrow> dispatch net req = Inl (on_response_error e)"
  by (simp add: dispatch_def)

text \<open>
  Claim C4. When axios rejects a request with an error whose response has HTTP status 404
  (an unknown job id on a status query, a missing lesson on a lesson fetch), the client
  rejects with an error whose message is exactly \<open>Resource not found\<close>. The three
  operations \<open>uploadImages\<close>, \<open>getJobStatus\<close> and \<open>getLesson\<close> behave alike, since all
  go through the same response interceptor.
\<close>

theorem not_found_mapping:
  assumes "response e = Some r" and "http_status r = 404"
  shows "(netU (upload_request env formData) = Rejected e \<longrightarrow>
            uploadImages env netU formData = Inl (Error ''Resource not found'')) \<and>
         (netS (status_request env jobId) = Rejected e \<longrightarrow>
            getJobStatus env netS jobId = Inl (Error ''Resource not found'')) \<and>
         (netL (lesson_request env lessonId) = Rejected e \<longrightarrow>
            getLesson env netL lessonId = Inl (Error ''Resource not found''))"
proof -
  from assms have "response_status e = Some 404"
    by (simp add: response_status_def)
  then have "on_response_error e = Error ''Resource not found''"
    by (rule on_response_error_404)
  then show ?thesis
    by (simp add: uploadImages_def getJobStatus_def getLesson_def dispatch_Rejected)
qed

theorem not_found_mapping_witness:
  "response error_404 = Some \<lparr>http_status = 404, data = \<lparr>detail = Some ''Job not found''\<rparr>\<rparr> \<and>
   uploadImages None (\<lambda>req :: nat request. Rejected error_404) [] =
     Inl (Error ''Resource not found'') \<and>
   getJobStatus None (\<lambda>req :: nat request. (Rejected error_404 :: JobStatusResponse settled)) ''j1'' =
     Inl (Error ''Resource not found'') \<and>
   getLesson None (\<lambda>req :: nat request. (Rejected error_404 :: unit settled)) ''l1'' =
     Inl (Error ''Resource not found'')"
proof -
  have r: "response error_404 = Some \<lparr>http_status = 404, data = \<lparr>detail = Some ''Job not found''\<rparr>\<rparr>"
    by (simp add: error_404_def)
  have s: "http_status \<lparr>http_status = 404, data = \<lparr>detail = Some ''Job not found''\<rparr>\<rparr> = 404"
    by simp
  show ?thesis
    using r not_found_mapping [OF r s,
        of "\<lambda>req :: nat request. Rejected error_404" None "[]"
           "\<lambda>req :: nat request. (Rejected error_404 :: JobStatusResponse settled)" "''j1''"
           "\<lambda>req :: nat request. (Rejected error_404 :: unit settled)" "''l1''"]
    by simp
qed

text \<open>
  Claim C6. Every request issued through the client carries the timeout of 30000 ms, and
  a rejection with axios code \<open>ECONNABORTED\<close> becomes a thrown error with the message
  \<open>Request timed out\<close>. The interceptor looks at the response status first, so the
  statement is for a rejection whose response, if there is one, has neither status 404
  nor 500; a request that timed out has no response at all.
\<close>

theorem request_timeout:
  "req_timeout (upload_request env formData :: 'f request) = 30000 \<and>
   req_timeout (status_request env jobId :: 'f request) = 30000 \<and>
   req_timeout (lesson_request env lessonId :: 'f request) = 30000 \<and>
   (code e = Some ''ECONNABORTED'' \<and> response_status e \<noteq> Some 404 \<and> response_status e \<noteq> Some 500 \<longrightarrow>
      (netU (upload_request env formData) = Rejected e \<longrightarrow>
         uploadImages env netU formData = Inl (Error ''Request timed out'')) \<and>
      (netS (status_request env jobId :: 'f request) = Rejected e \<longrightarrow>
         getJobStatus env netS jobId = Inl (Error ''Request timed out'')) \<and>
      (netL (lesson_request env lessonId :: 'f request) = Rejected e \<longrightarrow>
         getLesson env netL lessonId = Inl (Error ''Request timed out'')))"
proof -
  have t: "req_timeout (upload_request env formData :: 'f request) = 30000"
      "req_timeout (status_request env jobId :: 'f request) = 30000"
      "req_timeout (lesson_request env lessonId :: 'f request) = 30000"
    by (simp_all add: upload_request_def status_request_def lesson_request_def api_post_def
        api_get_def api_def)
  have "on_response_error e = Error ''Request timed out''"
    if "code e = Some ''ECONNABORTED''" "response_status e \<noteq> Some 404" "response_status e \<noteq> Some 500"
    using that by (simp add: on_response_error_timeout)
  then show ?thesis
    using t by (simp add: uploadImages_def getJobStatus_def getLesson_def dispatch_Rejected)
qed

theorem request_timeout_witness:
  "code error_timeout = Some ''ECONNABORTED'' \<and> response_status error_timeout = None \<and>
   req_timeout (upload_request None ([] :: nat FormData)) = 30000 \<and>
   uploadImages None (\<lambda>req :: nat request. Rejected error_timeout) [] =
     Inl (Error ''Request timed out'') \<and>
   getJobStatus None (\<lambda>req :: nat request. (Rejected error_timeout :: JobStatusResponse settled)) ''j1'' =
     Inl (Error ''Request timed out'') \<and>
   getLesson None (\<lambda>req :: nat request. (Rejected error_timeout :: unit settled)) ''l1'' =
     Inl (Error ''Request timed out'')"
proof -
  have h: "code error_timeout = Some ''ECONNABORTED''" "response_status error_timeout = None"
    by (simp_all add: error_timeout_def response_status_def)
  show ?thesis
    using h request_timeout [of None "[] :: nat FormData" "''j1''" "''l1''" error_timeout
           "\<lambda>req :: nat request. Rejected error_timeout"
           "\<lambda>req :: nat request. (Rejected error_timeout :: JobStatusResponse settled)"
           "\<lambda>req :: nat request. (Rejected error_timeout :: unit settled)"]
    by simp
qed

subsection \<open>The body of a status answer\<close>

lemma is_string_iff: "is_string v \<longleftrightarrow> (\<exists>s. v = Some (JString s))"
  by (auto simp: is_string_def split: option.splits json.splits)

lemma is_boolean_iff: "is_boolean v \<longleftrightarrow> (\<exists>b. v = Some (JBool b))"
  by (auto simp: is_boolean_def split: option.splits json.splits)

lemma is_optional_string_iff:
  "is_optional_string v \<longleftrightarrow> (\<exists>s. v = map_option JString s)"
proof
  assume "is_optional_string v"
  then have "v = None \<or> (\<exists>l. v = Some (JString l))"
    by (auto simp: is_optional_string_def split: option.splits json.splits)
  then show "\<exists>s. v = map_option JString s"
  proof
    assume "v = None"
    then have "v = map_option JString None" by simp
    then show ?thesis ..
  next
    assume "\<exists>l. v = Some (JString l)"
    then obtain l where "v = map_option JString (Some l)" by auto
    then show ?thesis ..
  qed
next
  assume "\<exists>s. v = map_option JString s"
  then obtain s where "v = map_option JString s" ..
  then show "is_optional_string v"
    by (cases s) (simp_all add: is_optional_string_def)
qed

lemma map_of_object_of:
  "map_of (object_of r) k =
     (if k = ''job_id'' then Some (JString (job_id r))
      else if k = ''status'' then Some (JString (status r))
      else if k = ''created_at'' then Some (JString (created_at r))
      else if k = ''ocr_done'' then Some (JBool (ocr_done r))
      else if k = ''llm_done'' then Some (JBool (llm_done r))
      else if k = ''lesson_built'' then Some (JBool (lesson_built r))
      else if k = ''lesson_id'' then map_option JString (lesson_id r)
      else if k = ''error'' then map_option JString (error r)
      else None)"
  by (simp add: object_of_def split: option.splits)

lemma outside_keys:
  assumes "list_all (\<lambda>k. k \<in> set JobStatusResponse_keys) (map fst props)"
    and "k \<notin> set JobStatusResponse_keys"
  shows "map_of props k = None"
proof -
  from assms have "k \<notin> set (map fst props)"
    by (auto simp: list_all_iff)
  then show ?thesis
    by (simp add: map_of_eq_None_iff)
qed

lemma shape_gives_record:
  assumes "is_JobStatusResponse (JObject props)"
  shows "\<exists>r. map_of props = map_of (object_of r)"
proof -
  from assms have keys: "list_all (\<lambda>k. k \<in> set JobStatusResponse_keys) (map fst props)"
    and s: "is_string (map_of props ''job_id'')" "is_string (map_of props ''status'')"
      "is_string (map_of props ''created_at'')"
    and b: "is_boolean (map_of props ''ocr_done'')" "is_boolean (map_of props ''llm_done'')"
      "is_boolean (map_of props ''lesson_built'')"
    and o: "is_optional_string (map_of props ''lesson_id'')"
      "is_optional_string (map_of props ''error'')"
    by (simp_all add: is_JobStatusResponse_def)
  from s obtain j st c where f1: "map_of props ''job_id'' = Some (JString j)"
      "map_of props ''status'' = Some (JString st)"
      "map_of props ''created_at'' = Some (JString c)"
    unfolding is_string_iff by blast
  from b obtain od ld lb where f2: "map_of props ''ocr_done'' = Some (JBool od)"
      "map_of props ''llm_done'' = Some (JBool ld)"
      "map_of props ''lesson_built'' = Some (JBool lb)"
    unfolding is_boolean_iff by blast
  from o obtain li er where f3: "map_of props ''lesson_id'' = map_option JString li"
      "map_of props ''error'' = map_option JString er"
    unfolding is_optional_string_iff by blast
  let ?r = "\<lparr>job_id = j, status = st, created_at = c, ocr_done = od, llm_done = ld,
             lesson_built = lb, lesson_id = li, error = er\<rparr>"
  have "map_of props k = map_of (object_of ?r) k" for k
  proof (cases "k \<in> set JobStatusResponse_keys")
    case True
    then show ?thesis
      using f1 f2 f3 by (auto simp: JobStatusResponse_keys_def map_of_object_of)
  next
    case False
    then have "map_of props k = None"
      using keys by (intro outside_keys)
    moreover from False have "map_of (object_of ?r) k = None"
      by (simp add: JobStatusResponse_keys_def map_of_object_of)
    ultimately show ?thesis by simp
  qed
  then have "map_of props = map_of (object_of ?r)" by (rule ext)
  then show ?thesis ..
qed

lemma record_gives_shape:
  assumes d: "distinct (map fst props)" and m: "map_of props = map_of (object_of r)"
  shows "is_JobStatusResponse (JObject props)"
proof -
  have "k \<in> set JobStatusResponse_keys" if "k \<in> set (map fst props)" for k
  proof -
    from that have "map_of props k \<noteq> None"
      by (simp add: map_of_eq_None_iff)
    then have "map_of (object_of r) k \<noteq> None"
      by (simp add: m)
    then show ?thesis
      by (simp add: map_of_object_of JobStatusResponse_keys_def split: if_splits)
  qed
  then have keys: "list_all (\<lambda>k. k \<in> set JobStatusResponse_keys) (map fst props)"
    by (simp add: list_all_iff)
  have "is_string (map_of props ''job_id'')" "is_string (map_of props ''status'')"
      "is_string (map_of props ''created_at'')" "is_boolean (map_of props ''ocr_done'')"
      "is_boolean (map_of props ''llm_done'')" "is_boolean (map_of props ''lesson_built'')"
      "is_optional_string (map_of props ''lesson_id'')"
      "is_optional_string (map_of props ''error'')"
    unfolding m is_string_iff is_boolean_iff is_optional_string_iff
    by (simp_all add: map_of_object_of) blast+
  with d keys show ?thesis
    by (simp add: is_JobStatusResponse_def)
qed

lemma shape_iff_record:
  "is_JobStatusResponse v \<longleftrightarrow>
     (\<exists>props r. v = JObject props \<and> distinct (map fst props) \<and>
        map_of props = map_of (object_of r))"
proof
  assume v: "is_JobStatusResponse v"
  then obtain props where p: "v = JObject props"
    by (cases v) (simp_all add: is_JobStatusResponse_def)
  with v have "distinct (map fst props)"
    by (simp add: is_JobStatusResponse_def)
  moreover from v p obtain r where "map_of props = map_of (object_of r)"
    using shape_gives_record by blast
  ultimately show "\<exists>props r. v = JObject props \<and> distinct (map fst props) \<and>
        map_of props = map_of (object_of r)"
    using p by blast
next
  assume "\<exists>props r. v = JObject props \<and> distinct (map fst props) \<and>
        map_of props = map_of (object_of r)"
  then show "is_JobStatusResponse v"
    using record_gives_shape by blast
qed

lemma getJobStatus_request:
  "status_request env jobId =
     \<lparr>req_method = ''get'', req_url = ''/status/'' @ jobId, req_baseURL = API_BASE_URL env,
      req_timeout = 30000, req_headers = [], req_data = None\<rparr>"
  by (simp add: status_request_def api_get_def api_def)

text \<open>
  Claim C7, as the code has it. \<open>getJobStatus\<close> sends one GET request for
  \<open>/status/<jobId>\<close> with the instance defaults. When the request is fulfilled it returns
  the body unchanged, whatever the body is; so the result is a record with exactly the
  fields \<open>job_id\<close>, \<open>status\<close>, \<open>created_at\<close> (strings), \<open>ocr_done\<close>, \<open>llm_done\<close>,
  \<open>lesson_built\<close> (booleans) and optionally \<open>lesson_id\<close> and \<open>error\<close> (strings) if and only
  if the body that came back is one. When the request is rejected the operation fails
  with the interceptor's error.
\<close>

theorem getJobStatus_snapshot:
  "(net \<lparr>req_method = ''get'', req_url = ''/status/'' @ jobId, req_baseURL = API_BASE_URL env,
         req_timeout = 30000, req_headers = [], req_data = None\<rparr> = Fulfilled resp \<longrightarrow>
      getJobStatus env net jobId = Inr (data resp) \<and>
      (is_JobStatusResponse (data resp) \<longleftrightarrow>
         (\<exists>props r. getJobStatus env net jobId = Inr (JObject props) \<and>
            distinct (map fst props) \<and> map_of props = map_of (object_of r)))) \<and>
   (net \<lparr>req_method = ''get'', req_url = ''/status/'' @ jobId, req_baseURL = API_BASE_URL env,
         req_timeout = 30000, req_headers = [], req_data = None\<rparr> = Rejected e \<longrightarrow>
      getJobStatus env net jobId = Inl (on_response_error e))"
proof (intro conjI impI)
  assume f: "net \<lparr>req_method = ''get'', req_url = ''/status/'' @ jobId,
      req_baseURL = API_BASE_URL env, req_timeout = 30000, req_headers = [],
      req_data = None\<rparr> = Fulfilled resp"
  then show r: "getJobStatus env net jobId = Inr (data resp)"
    by (simp add: getJobStatus_def dispatch_def getJobStatus_request)
  show "is_JobStatusResponse (data resp) \<longleftrightarrow>
         (\<exists>props r. getJobStatus env net jobId = Inr (JObject props) \<and>
            distinct (map fst props) \<and> map_of props = map_of (object_of r))"
    unfolding r shape_iff_record by auto
next
  assume "net \<lparr>req_method = ''get'', req_url = ''/status/'' @ jobId,
      req_baseURL = API_BASE_URL env, req_timeout = 30000, req_headers = [],
      req_data = None\<rparr> = Rejected e"
  then show "getJobStatus env net jobId = Inl (on_response_error e)"
    by (simp add: getJobStatus_def dispatch_def getJobStatus_request)
qed

theorem getJobStatus_snapshot_witness:
  "is_JobStatusResponse (JObject (object_of (snapshot ''processing'' None))) \<and>
   getJobStatus None
     (\<lambda>req :: string request.
        Fulfilled \<lparr>http_status = 200, data = JObject (object_of (snapshot ''processing'' None))\<rparr>)
     ''j1'' =
     Inr (JObject
       [(''job_id'', JString ''j1''), (''status'', JString ''processing''),
        (''created_at'', JString ''2024-01-01T00:00:00''), (''ocr_done'', JBool True),
        (''llm_done'', JBool False), (''lesson_built'', JBool False)]) \<and>
   getJobStatus None
     (\<lambda>req :: string request. (Rejected error_404 :: json settled)) ''j1'' =
     Inl (Error ''Resource not found'')"
proof -
  have ok: "is_JobStatusResponse (JObject (object_of (snapshot ''processing'' None)))"
    by (simp add: is_JobStatusResponse_def object_of_def snapshot_def JobStatusResponse_keys_def
        is_string_def is_boolean_def is_optional_string_def)
  have v: "object_of (snapshot ''processing'' None) =
       [(''job_id'', JString ''j1''), (''status'', JString ''processing''),
        (''created_at'', JString ''2024-01-01T00:00:00''), (''ocr_done'', JBool True),
        (''llm_done'', JBool False), (''lesson_built'', JBool False)]"
    by (simp add: object_of_def snapshot_def)
  have e: "on_response_error error_404 = Error ''Resource not found''"
    by (simp add: on_response_error_def response_status_def error_404_def)
  show ?thesis
    using ok v e
      getJobStatus_snapshot [of
        "\<lambda>req :: string request.
           Fulfilled \<lparr>http_status = 200, data = JObject (object_of (snapshot ''processing'' None))\<rparr>"
        "''j1''" None
        "\<lparr>http_status = 200, data = JObject (object_of (snapshot ''processing'' None))\<rparr>" error_404]
      getJobStatus_snapshot [of
        "\<lambda>req :: string request. (Rejected error_404 :: json settled)"
        "''j1''" None "\<lparr>http_status = 404, data = JNull\<rparr>" error_404]
    by simp
qed

text \<open>
  Claim C7, as worded. The operation is said to return such a record always. It checks
  nothing: the body \<open>{ok: true}\<close> of a fulfilled response comes back as it is, and it has
  none of the declared fields.
\<close>

theorem getJobStatus_unvalidated_counterexample:
  "getJobStatus None
     (\<lambda>req :: string request.
        Fulfilled \<lparr>http_status = 200, data = JObject [(''ok'', JBool True)]\<rparr>)
     ''j1'' = Inr (JObject [(''ok'', JBool True)]) \<and>
   \<not> is_JobStatusResponse (JObject [(''ok'', JBool True)])"
  by (simp add: getJobStatus_def dispatch_def is_JobStatusResponse_def
      JobStatusResponse_keys_def)

section \<open>Submitting from the upload page\<close>

text \<open>
  Claim C1. With no file selected, \<open>handleUpload\<close> sets the validation message and
  returns: it issues no request and navigates nowhere, so no job id comes into being. The
  rest of the page state is untouched.
\<close>

theorem handleUpload_empty:
  "files s = [] \<Longrightarrow>
     handleUpload env net s =
       (s\<lparr>upload_error := Some ''Please select at least one image to upload''\<rparr>, [], None)"
  by (simp add: handleUpload_def)

theorem handleUpload_empty_witness:
  "files page0 = [] \<and>
   handleUpload None (\<lambda>req. Rejected error_404) page0 =
     (\<lparr>files = [], isUploading = False,
       upload_error = Some ''Please select at least one image to upload''\<rparr>, [], None)"
proof -
  have h: "files page0 = []" by (simp add: page0_def)
  show ?thesis
    using h handleUpload_empty [OF h, of None "\<lambda>req. Rejected error_404"]
    by (simp add: page0_def)
qed

lemma upload_tags_length: "length (upload_tags fs) = length fs"
  by (simp add: upload_tags_def)

lemma upload_tags_nth:
  "k < length fs \<Longrightarrow> upload_tags fs ! k = tag_or_default k (fs ! k)"
  by (simp add: upload_tags_def nth_enumerate_eq)

lemma build_formData_nonempty:
  "fs \<noteq> [] \<Longrightarrow>
     build_formData fs =
       map (\<lambda>fileObj. (''files'', FileV (file' fileObj))) fs @
       [(''tags'', StrV (join '','' (upload_tags fs)))]"
  by (simp add: build_formData_def upload_tags_length)

lemma handleUpload_requests:
  "files s \<noteq> [] \<Longrightarrow>
     fst (snd (handleUpload env net s)) = [upload_request env (build_formData (files s))]"
  by (auto simp: handleUpload_def Let_def split: sum.splits js_error.splits)

text \<open>
  Claim C2, as the code has it. For a submission of n files the handler issues one upload
  request whose form holds the files in upload order and then one field \<open>tags\<close>, the
  tags joined by commas in the same order. The tag for the image at position k (from 0)
  is \<open>pic<k+1>\<close> when the user's tag is unset or empty, and the user's tag otherwise.
\<close>

theorem upload_tags_default:
  assumes "files s \<noteq> []"
  shows "fst (snd (handleUpload env net s)) =
           [upload_request env
              (map (\<lambda>fileObj. (''files'', FileV (file' fileObj))) (files s) @
               [(''tags'', StrV (join '','' (upload_tags (files s))))])] \<and>
         length (upload_tags (files s)) = length (files s) \<and>
         (\<forall>k < length (files s).
            upload_tags (files s) ! k =
              (if tag (files s ! k) = None \<or> tag (files s ! k) = Some []
               then ''pic'' @ string_of_nat (k + 1)
               else the (tag (files s ! k))))"
proof (intro conjI allI impI)
  show "fst (snd (handleUpload env net s)) =
           [upload_request env
              (map (\<lambda>fileObj. (''files'', FileV (file' fileObj))) (files s) @
               [(''tags'', StrV (join '','' (upload_tags (files s))))])]"
    using assms by (simp add: handleUpload_requests build_formData_nonempty)
  show "length (upload_tags (files s)) = length (files s)"
    by (rule upload_tags_length)
  fix k assume "k < length (files s)"
  then show "upload_tags (files s) ! k =
              (if tag (files s ! k) = None \<or> tag (files s ! k) = Some []
               then ''pic'' @ string_of_nat (k + 1)
               else the (tag (files s ! k)))"
    by (auto simp: upload_tags_nth tag_or_default_def truthy_def default_tag_def
        split: option.splits)
qed

theorem upload_tags_default_witness:
  "files (page0\<lparr>files := [picture ''a.png'' (Some ''limit''), picture ''b.png'' (Some [])]\<rparr>) \<noteq> [] \<and>
   upload_tags (files (page0\<lparr>files := [picture ''a.png'' (Some ''limit''), picture ''b.png'' (Some [])]\<rparr>)) =
     [''limit'', ''pic2''] \<and>
   fst (snd (handleUpload None (\<lambda>req. Rejected error_404)
               (page0\<lparr>files := [picture ''a.png'' (Some ''limit''), picture ''b.png'' (Some [])]\<rparr>))) =
     [upload_request None
        [(''files'', FileV ''a.png''), (''files'', FileV ''b.png''), (''tags'', StrV ''limit,pic2'')]]"
proof -
  let ?s = "page0\<lparr>files := [picture ''a.png'' (Some ''limit''), picture ''b.png'' (Some [])]\<rparr>"
  have h: "files ?s \<noteq> []" by simp
  have t: "upload_tags (files ?s) = [''limit'', ''pic2'']"
    by (simp add: upload_tags_def picture_def tag_or_default_def truthy_def default_tag_def
        string_of_nat.simps digit_char_def enumerate_eq_zip upt_rec)
  show ?thesis
    using h t upload_tags_default [OF h, of None "\<lambda>req. Rejected error_404"]
    by (simp add: picture_def)
qed

text \<open>
  Claim C2, as worded. The rule of the specification also gives the default to a tag that duplicates
  another image's tag. The handler does not: two images both tagged \<open>a\<close> are sent with
  the tags \<open>a\<close> and \<open>a\<close>, where the worded rule asks for \<open>pic1\<close> at position 0.
\<close>

theorem upload_tags_duplicate_counterexample:
  "tag ([picture ''a.png'' (Some ''a''), picture ''b.png'' (Some ''a'')] ! 0) =
     tag ([picture ''a.png'' (Some ''a''), picture ''b.png'' (Some ''a'')] ! 1) \<and>
   upload_tags [picture ''a.png'' (Some ''a''), picture ''b.png'' (Some ''a'')] ! 0 = ''a'' \<and>
   claimed_tag [picture ''a.png'' (Some ''a''), picture ''b.png'' (Some ''a'')] 0 = ''pic1''"
  by (simp add: upload_tags_def picture_def tag_or_default_def truthy_def default_tag_def
      string_of_nat.simps digit_char_def claimed_tag_def duplicates_another_def)

section \<open>The held file list\<close>

lemma slice0_take: "0 \<le> e \<Longrightarrow> slice0 e xs = take (nat e) xs"
  by (simp add: slice0_def)

lemma length_onDrop: "0 \<le> maxFiles \<Longrightarrow> int (length (onDrop maxFiles acceptedFiles fs)) \<le> maxFiles"
  by (simp add: onDrop_def slice0_take)

lemma removeFile_filter:
  "removeFile index fs = map snd (filter (\<lambda>p. int (fst p) \<noteq> index) (enumerate 0 fs))"
  by (simp add: removeFile_def case_prod_unfold)

lemma length_removeFile: "length (removeFile index fs) \<le> length fs"
proof -
  have "length (removeFile index fs) \<le> length (enumerate 0 fs)"
    unfolding removeFile_filter length_map by (rule length_filter_le)
  then show ?thesis by simp
qed

lemma length_updateTag: "length (updateTag index t fs) = length fs"
  by (simp add: updateTag_def)

lemma length_upload_step:
  assumes "0 \<le> maxFiles" and "int (length fs) \<le> maxFiles"
  shows "int (length (upload_step maxFiles fs ev)) \<le> maxFiles"
proof (cases ev)
  case (Drop acceptedFiles)
  with assms(1) show ?thesis by (simp add: length_onDrop)
next
  case (Remove index)
  have "int (length (removeFile index fs)) \<le> int (length fs)"
    using length_removeFile [of index fs] by simp
  with assms(2) Remove show ?thesis by simp
next
  case (UpdateTag index t)
  with assms(2) show ?thesis by (simp add: length_updateTag)
qed

lemma length_upload_run:
  "0 \<le> maxFiles \<Longrightarrow> int (length (upload_run maxFiles evs)) \<le> maxFiles"
proof (induction evs rule: rev_induct)
  case Nil
  then show ?case by (simp add: upload_run_def)
next
  case (snoc ev evs)
  then have "int (length (upload_step maxFiles (upload_run maxFiles evs) ev)) \<le> maxFiles"
    by (intro length_upload_step) simp_all
  then show ?case by (simp add: upload_run_def)
qed

lemma onDrop_keeps:
  assumes "0 \<le> maxFiles" and "int (length fs) \<le> maxFiles"
  shows "prefix fs (onDrop maxFiles acceptedFiles fs)"
proof -
  from assms have "length fs \<le> nat maxFiles" by simp
  then have "take (nat maxFiles) (fs @ ys) = fs @ take (nat maxFiles - length fs) ys" for ys :: "'a ImageFile list"
    by simp
  with assms(1) show ?thesis
    by (simp add: onDrop_def slice0_take)
qed

text \<open>
  Claim C3. For a limit \<open>maxFiles\<close> that is not negative (the page passes 5, which is also
  the default), after every sequence of drops, removals and tag edits the held list has at
  most \<open>maxFiles\<close> entries. A further drop yields the first \<open>maxFiles\<close> entries of the held
  files followed by the new ones, so the held files stay, in place, at the front.
\<close>

theorem upload_run_bounded:
  assumes "0 \<le> maxFiles"
  shows "int (length (upload_run maxFiles evs)) \<le> maxFiles \<and>
         onDrop maxFiles acceptedFiles (upload_run maxFiles evs) =
           take (nat maxFiles)
             (upload_run maxFiles evs @
              map (\<lambda>(f, url). \<lparr>file' = f, preview = url, tag = Some []\<rparr>) acceptedFiles) \<and>
         prefix (upload_run maxFiles evs) (onDrop maxFiles acceptedFiles (upload_run maxFiles evs))"
proof -
  have len: "int (length (upload_run maxFiles evs)) \<le> maxFiles"
    using assms by (rule length_upload_run)
  moreover have "prefix (upload_run maxFiles evs) (onDrop maxFiles acceptedFiles (upload_run maxFiles evs))"
    using assms len by (rule onDrop_keeps)
  ultimately show ?thesis
    using assms by (simp add: onDrop_def slice0_take)
qed

theorem upload_run_bounded_witness:
  "(0 :: int) \<le> 5 \<and>
   upload_run 5 [Drop [(''f1.png'', ''blob:1''), (''f2.png'', ''blob:2''), (''f3.png'', ''blob:3'')], Remove 0,
                 UpdateTag 1 ''limit''] =
     [\<lparr>file' = ''f2.png'', preview = ''blob:2'', tag = Some []\<rparr>,
      \<lparr>file' = ''f3.png'', preview = ''blob:3'', tag = Some ''limit''\<rparr>] \<and>
   onDrop 5 [(''f4.png'', ''blob:4''), (''f5.png'', ''blob:5''), (''f6.png'', ''blob:6''), (''f7.png'', ''blob:7'')]
     (upload_run 5 [Drop [(''f1.png'', ''blob:1''), (''f2.png'', ''blob:2''), (''f3.png'', ''blob:3'')], Remove 0,
                    UpdateTag 1 ''limit'']) =
     [\<lparr>file' = ''f2.png'', preview = ''blob:2'', tag = Some []\<rparr>,
      \<lparr>file' = ''f3.png'', preview = ''blob:3'', tag = Some ''limit''\<rparr>,
      \<lparr>file' = ''f4.png'', preview = ''blob:4'', tag = Some []\<rparr>,
      \<lparr>file' = ''f5.png'', preview = ''blob:5'', tag = Some []\<rparr>,
      \<lparr>file' = ''f6.png'', preview = ''blob:6'', tag = Some []\<rparr>]"
proof -
  have h: "(0 :: int) \<le> 5" by simp
  have run: "upload_run 5 [Drop [(''f1.png'', ''blob:1''), (''f2.png'', ''blob:2''), (''f3.png'', ''blob:3'')], Remove 0,
                 UpdateTag 1 ''limit''] =
     [\<lparr>file' = ''f2.png'', preview = ''blob:2'', tag = Some []\<rparr>,
      \<lparr>file' = ''f3.png'', preview = ''blob:3'', tag = Some ''limit''\<rparr>]"
    by (simp add: upload_run_def onDrop_def slice0_def removeFile_def updateTag_def
        enumerate_eq_zip upt_rec)
  show ?thesis
    using h upload_run_bounded [OF h,
        of "[Drop [(''f1.png'', ''blob:1''), (''f2.png'', ''blob:2''), (''f3.png'', ''blob:3'')], Remove 0,
             UpdateTag 1 ''limit'']"
           "[(''f4.png'', ''blob:4''), (''f5.png'', ''blob:5''), (''f6.png'', ''blob:6''), (''f7.png'', ''blob:7'')]"]
    by (simp add: run)
qed

lemma updateTag_nth:
  "j < length fs \<Longrightarrow>
     updateTag index t fs ! j = (if int j = index then (fs ! j)\<lparr>tag := Some t\<rparr> else fs ! j)"
  by (simp add: updateTag_def nth_enumerate_eq)

text \<open>
  Claim C9. \<open>updateTag index t\<close> returns a list of the same length in the same order.
  At every position the file and the preview are as before; the entry at \<open>index\<close> has
  the tag \<open>t\<close>, and every other entry is unchanged in all its fields.
\<close>

theorem updateTag_frame:
  "length (updateTag index t fs) = length fs \<and>
   (\<forall>j < length fs.
      file' (updateTag index t fs ! j) = file' (fs ! j) \<and>
      preview (updateTag index t fs ! j) = preview (fs ! j) \<and>
      (int j = index \<longrightarrow> tag (updateTag index t fs ! j) = Some t) \<and>
      (int j \<noteq> index \<longrightarrow> updateTag index t fs ! j = fs ! j))"
  by (simp add: length_updateTag updateTag_nth)

theorem updateTag_frame_witness:
  "updateTag 1 ''limit'' [picture ''a.png'' (Some []), picture ''b.png'' (Some []), picture ''c.png'' (Some ''x'')] =
     [picture ''a.png'' (Some []), picture ''b.png'' (Some ''limit''), picture ''c.png'' (Some ''x'')] \<and>
   (1 :: nat) < length [picture ''a.png'' (Some []), picture ''b.png'' (Some []), picture ''c.png'' (Some ''x'')] \<and>
   tag (updateTag 1 ''limit'' [picture ''a.png'' (Some []), picture ''b.png'' (Some []), picture ''c.png'' (Some ''x'')] ! 1) =
     Some ''limit'' \<and>
   updateTag 1 ''limit'' [picture ''a.png'' (Some []), picture ''b.png'' (Some []), picture ''c.png'' (Some ''x'')] ! 2 =
     picture ''c.png'' (Some ''x'')"
proof -
  let ?fs = "[picture ''a.png'' (Some []), picture ''b.png'' (Some []), picture ''c.png'' (Some ''x'')]"
  have v: "updateTag 1 ''limit'' ?fs =
     [picture ''a.png'' (Some []), picture ''b.png'' (Some ''limit''), picture ''c.png'' (Some ''x'')]"
    by (simp add: updateTag_def picture_def enumerate_eq_zip upt_rec)
  have "(1 :: nat) < length ?fs" "(2 :: nat) < length ?fs" by simp_all
  with updateTag_frame [of 1 "''limit''" ?fs] v show ?thesis
    by (simp add: picture_def)
qed


section \<open>The step index of the lesson viewer\<close>

lemma dot_buttons_bound: "index \<in> set (dot_buttons steps) \<Longrightarrow> index < length steps"
  by (auto simp: dot_buttons_def in_set_enumerate_eq split: if_splits)

lemma viewer_step_bounds:
  assumes "0 \<le> i" and "i < int (length steps)"
  shows "0 \<le> viewer_step steps i ev \<and> viewer_step steps i ev < int (length steps)"
proof (cases ev)
  case NextStep
  with assms show ?thesis by (simp add: nextStep_def)
next
  case PrevStep
  with assms show ?thesis by (auto simp: prevStep_def)
next
  case (DotButton index)
  with assms show ?thesis by (auto dest: dot_buttons_bound)
qed

lemma viewer_run_bounds:
  "steps \<noteq> [] \<Longrightarrow> 0 \<le> viewer_run steps evs \<and> viewer_run steps evs < int (length steps)"
proof (induction evs rule: rev_induct)
  case Nil
  then show ?case by (simp add: viewer_run_def)
next
  case (snoc ev evs)
  then have "0 \<le> viewer_run steps evs" "viewer_run steps evs < int (length steps)"
    by simp_all
  then have "0 \<le> viewer_step steps (viewer_run steps evs) ev \<and>
             viewer_step steps (viewer_run steps evs) ev < int (length steps)"
    by (rule viewer_step_bounds)
  then show ?case by (simp add: viewer_run_def)
qed

text \<open>
  Claim C10. For a lesson with at least one step, starting from index 0, every sequence
  of \<open>nextStep\<close>, \<open>prevStep\<close> and dot-button clicks leaves the index between 0 and
  \<open>steps.length - 1\<close>. From any index reached, \<open>prevStep\<close> does not go below 0 and
  \<open>nextStep\<close> does not reach \<open>steps.length\<close>, and the current step exists.
\<close>

theorem viewer_index_in_bounds:
  assumes "steps \<noteq> []"
  shows "0 \<le> viewer_run steps evs \<and> viewer_run steps evs \<le> int (length steps) - 1 \<and>
         0 \<le> prevStep (viewer_run steps evs) \<and>
         nextStep steps (viewer_run steps evs) < int (length steps) \<and>
         currentStep steps (viewer_run steps evs) = Some (steps ! nat (viewer_run steps evs))"
proof -
  from assms have b: "0 \<le> viewer_run steps evs" "viewer_run steps evs < int (length steps)"
    using viewer_run_bounds [of steps evs] by simp_all
  then show ?thesis
    by (simp add: prevStep_def nextStep_def currentStep_def)
qed

theorem viewer_index_in_bounds_witness:
  "[''a'', ''b'', ''c''] \<noteq> [] \<and>
   viewer_run [''a'', ''b'', ''c''] [PrevStep, NextStep, NextStep, NextStep, DotButton 7, DotButton 1, PrevStep] = 0 \<and>
   viewer_run [''a'', ''b'', ''c''] [PrevStep, NextStep, NextStep, NextStep, DotButton 7] = 2 \<and>
   currentStep [''a'', ''b'', ''c'']
     (viewer_run [''a'', ''b'', ''c''] [PrevStep, NextStep, NextStep, NextStep, DotButton 7]) = Some ''c''"
proof -
  have h: "[''a'', ''b'', ''c''] \<noteq> []" by simp
  have r: "viewer_run [''a'', ''b'', ''c''] [PrevStep, NextStep, NextStep, NextStep, DotButton 7] = 2"
    "viewer_run [''a'', ''b'', ''c''] [PrevStep, NextStep, NextStep, NextStep, DotButton 7, DotButton 1, PrevStep] = 0"
    by (simp_all add: viewer_run_def nextStep_def prevStep_def dot_buttons_def enumerate_eq_zip upt_rec)
  show ?thesis
    using h r viewer_index_in_bounds [OF h, of "[PrevStep, NextStep, NextStep, NextStep, DotButton 7]"]
    by simp
qed

section \<open>Polling on the status page\<close>

lemma pollStatus_timer:
  "snd (pollStatus env net jobId s) =
     (if terminal (getJobStatus env net jobId) then None else Some 2000)"
  by (auto simp: pollStatus_def terminal_def Let_def split: sum.splits js_error.splits)

lemma polling_terminal:
  "terminal (getJobStatus env net jobId) \<Longrightarrow>
     snd (polling env (net # nets) jobId s) = (1, [])"
  using pollStatus_timer [of env net jobId s]
  by (cases "pollStatus env net jobId s") simp

lemma polling_continue:
  "\<not> terminal (getJobStatus env net jobId) \<Longrightarrow>
     snd (polling env (net # nets) jobId s) =
       (Suc (fst (snd (polling env nets jobId (fst (pollStatus env net jobId s))))),
        2000 # snd (snd (polling env nets jobId (fst (pollStatus env net jobId s)))))"
  using pollStatus_timer [of env net jobId s]
  by (cases "pollStatus env net jobId s") (simp split: prod.splits)

lemma polling_counts:
  "snd (polling env nets jobId s) =
     (min (length nets) (Suc (length (takeWhile (\<lambda>net. \<not> terminal (getJobStatus env net jobId)) nets))),
      replicate (length (takeWhile (\<lambda>net. \<not> terminal (getJobStatus env net jobId)) nets)) 2000)"
proof (induction nets arbitrary: s)
  case Nil
  show ?case by simp
next
  case (Cons net nets)
  show ?case
  proof (cases "terminal (getJobStatus env net jobId)")
    case True
    then show ?thesis by (simp add: polling_terminal del: polling.simps)
  next
    case False
    then show ?thesis
      by (simp add: polling_continue Cons.IH del: polling.simps)
  qed
qed

text \<open>
  Claim C5. One run of \<open>pollStatus\<close> sets no timer when the answer is the status
  \<open>completed\<close> or \<open>error\<close> or the request failed, and sets exactly one timer, of 2000 ms,
  for every other status. So the polling sequence issues one request for each answer up
  to and including the first terminal one and none after it, with one 2000 ms timer
  between consecutive requests; it goes on for as long as no terminal answer is seen.
\<close>

theorem polling_stops_at_terminal:
  "snd (pollStatus env net jobId s) =
     (if terminal (getJobStatus env net jobId) then None else Some 2000) \<and>
   fst (snd (polling env nets jobId s)) =
     min (length nets)
       (Suc (length (takeWhile (\<lambda>net. \<not> terminal (getJobStatus env net jobId)) nets))) \<and>
   snd (snd (polling env nets jobId s)) =
     replicate (length (takeWhile (\<lambda>net. \<not> terminal (getJobStatus env net jobId)) nets)) 2000"
  by (simp add: pollStatus_timer polling_counts)

theorem polling_stops_at_terminal_witness:
  "snd (polling None
          [answers ''pending'' None, answers ''processing'' None, answers ''completed'' None,
           answers ''processing'' None]
          ''j1'' status0) = (3, [2000, 2000]) \<and>
   snd (pollStatus None (answers ''error'' None) ''j1'' status0) = None \<and>
   snd (pollStatus None (\<lambda>req :: string request. Rejected error_timeout) ''j1'' status0) = None \<and>
   snd (pollStatus None (answers ''processing'' None) ''j1'' status0) = Some 2000"
proof -
  have t: "\<not> terminal (getJobStatus None (answers ''pending'' None) ''j1'')"
    "\<not> terminal (getJobStatus None (answers ''processing'' None) ''j1'')"
    "terminal (getJobStatus None (answers ''completed'' None) ''j1'')"
    "terminal (getJobStatus None (answers ''error'' None) ''j1'')"
    "terminal (getJobStatus None (\<lambda>req :: string request. Rejected error_timeout) ''j1'')"
    by (simp_all add: terminal_def getJobStatus_def dispatch_def answers_def snapshot_def)
  show ?thesis
    using polling_stops_at_terminal [of None "answers ''error'' None" "''j1''" status0
        "[answers ''pending'' None, answers ''processing'' None, answers ''completed'' None,
          answers ''processing'' None]"]
      polling_stops_at_terminal [of None "\<lambda>req :: string request. Rejected error_timeout" "''j1''" status0 "[]"]
      polling_stops_at_terminal [of None "answers ''processing'' None" "''j1''" status0 "[]"]
    by (simp add: t prod_eq_iff)
qed

section \<open>The math renderer's clean-up\<close>

subsection \<open>The regular expressions do what the description says\<close>

lemma first_match_None: "(\<And>k. 0 < k \<Longrightarrow> k \<le> n \<Longrightarrow> f k = None) \<Longrightarrow> first_match f n = None"
  by (induction n) auto

lemma rx_match_displaystyle:
  "rx_match rx_displaystyle s =
     (if prefix displaystyle s then Some ([], drop (length displaystyle) s) else None)"
  by (simp add: rx_displaystyle_def displaystyle_def)


lemma drop_takeWhile_head:
  assumes "n < length (takeWhile P xs)"
  shows "\<exists>y ys. drop n xs = y # ys \<and> P y"
proof -
  have len: "n < length xs"
    using assms length_takeWhile_le [of P xs] by (meson less_le_trans)
  have "takeWhile P xs ! n \<in> set (takeWhile P xs)"
    using assms by simp
  then have "P (takeWhile P xs ! n)"
    by (rule set_takeWhileD [THEN conjunct2])
  moreover have "takeWhile P xs ! n = xs ! n"
    using assms by (rule takeWhile_nth)
  ultimately have "P (xs ! n)" by simp
  then show ?thesis
    using len by (auto simp: Cons_nth_drop_Suc [symmetric])
qed

lemma take_drop_takeWhile:
  "take (length (takeWhile P xs)) xs = takeWhile P xs"
  "drop (length (takeWhile P xs)) xs = dropWhile P xs"
  by (induction xs) auto

lemma rx_match_close:
  "rx_match [Lit [c]] t = (if prefix [c] t then Some ([], drop 1 t) else None)"
  by simp

lemma capture_run:
  fixes c :: "'a" and body :: "'a list"
  defines "f \<equiv> \<lambda>n. case rx_match [Lit [c]] (drop n body) of
               None \<Rightarrow> None
             | Some (caps, rest) \<Rightarrow> Some (take n body # caps, rest)"
  defines "k \<equiv> length (takeWhile (\<lambda>x. x \<noteq> c) body)"
  shows "first_match f k =
     (if takeWhile (\<lambda>x. x \<noteq> c) body \<noteq> [] \<and> prefix [c] (dropWhile (\<lambda>x. x \<noteq> c) body)
      then Some ([takeWhile (\<lambda>x. x \<noteq> c) body], drop 1 (dropWhile (\<lambda>x. x \<noteq> c) body))
      else None)"
proof (cases k)
  case 0
  then show ?thesis by (simp add: k_def)
next
  case (Suc m)
  have below: "f n = None" if "n \<le> m" for n
  proof -
    from that Suc have "n < length (takeWhile (\<lambda>x. x \<noteq> c) body)" by (simp add: k_def)
    from drop_takeWhile_head [OF this] obtain y ys where "drop n body = y # ys" "y \<noteq> c"
      by blast
    then show ?thesis by (simp add: f_def)
  qed
  have top: "f k =
     (if prefix [c] (dropWhile (\<lambda>x. x \<noteq> c) body)
      then Some ([takeWhile (\<lambda>x. x \<noteq> c) body], drop 1 (dropWhile (\<lambda>x. x \<noteq> c) body))
      else None)"
    unfolding f_def k_def take_drop_takeWhile by simp
  have ne: "takeWhile (\<lambda>x. x \<noteq> c) body \<noteq> []"
    using Suc by (auto simp: k_def)
  show ?thesis
  proof (cases "prefix [c] (dropWhile (\<lambda>x. x \<noteq> c) body)")
    case True
    then show ?thesis using top ne Suc by simp
  next
    case False
    then have "f (Suc m) = None" using top Suc by simp
    moreover have "first_match f m = None"
      by (rule first_match_None) (simp add: below)
    ultimately show ?thesis using False Suc by simp
  qed
qed

lemma rx_match_text:
  "rx_match rx_text s =
     (case text_occurrence no_close_brace s of
        None \<Rightarrow> None
      | Some (content, rest) \<Rightarrow> Some ([content], rest))"
proof -
  let ?body = "drop (length text_open) s"
  have nc: "no_close_brace = (\<lambda>x. x \<noteq> close_brace)"
    by (simp add: fun_eq_iff no_close_brace_def)
  have "rx_match rx_text s =
          (if prefix text_open s then rx_match [CapPlusNot close_brace, Lit [close_brace]] ?body
           else None)"
    unfolding rx_text_def by (rule rx_match.simps(2))
  also have "rx_match [CapPlusNot close_brace, Lit [close_brace]] ?body =
     (if takeWhile (\<lambda>x. x \<noteq> close_brace) ?body \<noteq> [] \<and>
         prefix [close_brace] (dropWhile (\<lambda>x. x \<noteq> close_brace) ?body)
      then Some ([takeWhile (\<lambda>x. x \<noteq> close_brace) ?body],
                 drop 1 (dropWhile (\<lambda>x. x \<noteq> close_brace) ?body))
      else None)"
    unfolding rx_match.simps(3) by (rule capture_run)
  finally show ?thesis
    by (simp add: text_occurrence_def Let_def nc)
qed

lemma text_occurrence_shorter:
  assumes "text_occurrence ok s = Some (content, rest)"
  shows "length rest < length s"
proof -
  from assms have "length rest \<le> length (dropWhile ok (drop (length text_open) s))"
    by (auto simp: text_occurrence_def Let_def split: if_splits)
  also have "\<dots> \<le> length (drop (length text_open) s)"
    by (rule length_dropWhile_le)
  also have "\<dots> < length s"
    using assms by (auto simp: text_occurrence_def text_open_def prefix_def split: if_splits)
  finally show ?thesis .
qed

lemma text_occurrence_Nil: "text_occurrence ok [] = None"
  by (simp add: text_occurrence_def text_open_def)

lemma js_replace_text:
  "js_replace_all rx_text mathrm s = replace_text no_close_brace s"
proof (induction no_close_brace s rule: replace_text.induct)
  case 1
  show ?case by (simp add: rx_match_text text_occurrence_Nil)
next
  case (2 x xs)
  show ?case
  proof (cases "text_occurrence no_close_brace (x # xs)")
    case None
    with 2 show ?thesis by (simp add: rx_match_text)
  next
    case (Some p)
    obtain content rest where p: "p = (content, rest)" by (cases p)
    have "length rest < length (x # xs)"
      using Some p by (auto dest: text_occurrence_shorter)
    with 2 Some p show ?thesis
      by (simp add: rx_match_text mathrm_def)
  qed
qed

lemma js_replace_displaystyle:
  "js_replace_all rx_displaystyle (\<lambda>caps. []) s = delete_displaystyle s"
proof (induction s rule: delete_displaystyle.induct)
  case 1
  show ?case by (simp add: rx_match_displaystyle displaystyle_def)
next
  case (2 x xs)
  show ?case
  proof (cases "prefix displaystyle (x # xs)")
    case True
    moreover have "length (drop (length displaystyle) (x # xs)) < length (x # xs)"
      by (simp add: displaystyle_def)
    ultimately show ?thesis using 2 by (simp add: rx_match_displaystyle del: drop_Suc_Cons length_drop)
  next
    case False
    with 2 show ?thesis by (simp add: rx_match_displaystyle)
  qed
qed

lemma cleanLatex_refines:
  "cleanLatex latex = cleanLatex_described no_close_brace latex"
  by (simp add: cleanLatex_def cleanLatex_described_def js_replace_text js_replace_displaystyle)

subsection \<open>Strings the clean-up leaves alone\<close>

lemma prefix_text_open_cmd: "prefix text_open s \<Longrightarrow> prefix text_cmd s"
  by (auto simp: text_open_def text_cmd_def js_def prefix_def)

lemma replace_text_id:
  "\<not> contains text_cmd s \<Longrightarrow> replace_text ok s = s"
proof (induction ok s rule: replace_text.induct)
  case (1 ok)
  show ?case by simp
next
  case (2 ok x xs)
  from "2.prems" have np: "\<not> prefix text_open (x # xs)" and nc: "\<not> contains text_cmd xs"
    using prefix_text_open_cmd [of "x # xs"] by auto
  from np have none: "text_occurrence ok (x # xs) = None"
    by (simp add: text_occurrence_def)
  with "2.IH"(1) nc show ?case by simp
qed

lemma delete_displaystyle_id:
  "\<not> contains displaystyle s \<Longrightarrow> delete_displaystyle s = s"
  by (induction s rule: delete_displaystyle.induct) auto

lemma dropWhile_keeps:
  "xs \<noteq> [] \<Longrightarrow> \<not> P (hd xs) \<Longrightarrow> dropWhile P xs = xs"
  by (cases xs) auto

lemma trim_id:
  assumes "\<not> edge_white_space s"
  shows "trim s = s"
proof (cases "s = []")
  case True
  then show ?thesis by (simp add: trim_def)
next
  case False
  with assms have h: "\<not> is_white_space (hd s)" and l: "\<not> is_white_space (last s)"
    by (auto simp: edge_white_space_def)
  from False h have front: "dropWhile is_white_space s = s"
    by (rule dropWhile_keeps)
  from False l have "dropWhile is_white_space (rev s) = rev s"
    by (intro dropWhile_keeps) (auto simp: hd_rev)
  with front show ?thesis by (simp add: trim_def)
qed

lemma cleanLatex_described_id:
  "\<not> contains text_cmd s \<Longrightarrow> \<not> contains displaystyle s \<Longrightarrow> \<not> edge_white_space s \<Longrightarrow>
     cleanLatex_described ok s = s"
  by (simp add: cleanLatex_described_def replace_text_id delete_displaystyle_id trim_id)

text \<open>
  Claim C8, as the code has it. For every input string \<open>cleanLatex\<close> replaces, from left
  to right, every occurrence of \<open>\text{content}\<close> whose content is not empty and holds no
  closing brace (an opening brace may occur in it) by \<open>\mathrm{content}\<close>, then deletes
  every occurrence of \<open>\displaystyle\<close>, then trims white space at both ends, and changes
  nothing else. On a string that holds no \<open>\text\<close>, no \<open>\displaystyle\<close> and no white space
  at either end it is the identity, and so idempotent.
\<close>

theorem cleanLatex_rewrites:
  "cleanLatex latex = cleanLatex_described no_close_brace latex \<and>
   (\<not> contains text_cmd latex \<and> \<not> contains displaystyle latex \<and> \<not> edge_white_space latex \<longrightarrow>
      cleanLatex latex = latex \<and> cleanLatex (cleanLatex latex) = cleanLatex latex)"
  by (simp add: cleanLatex_refines cleanLatex_described_id)

theorem cleanLatex_rewrites_witness:
  "\<not> contains text_cmd (js ''x^2+1'') \<and> \<not> contains displaystyle (js ''x^2+1'') \<and>
   \<not> edge_white_space (js ''x^2+1'') \<and> cleanLatex (js ''x^2+1'') = js ''x^2+1'' \<and>
   cleanLatex (cleanLatex (js ''x^2+1'')) = cleanLatex (js ''x^2+1'')"
proof -
  have "\<not> contains text_cmd (js ''x^2+1'') \<and> \<not> contains displaystyle (js ''x^2+1'') \<and>
        \<not> edge_white_space (js ''x^2+1'')"
    by (simp add: text_cmd_def displaystyle_def edge_white_space_def is_white_space_def js_def
        backslash_def)
  with cleanLatex_rewrites [of "js ''x^2+1''"] show ?thesis by blast
qed

text \<open>
  Claim C8, as worded. With content read as free of both braces, the description and the code part on
  \<open>\text{a{b}c}\<close>: the description finds no occurrence there and leaves the string as it
  is, while the regular expression takes \<open>a{b\<close> for the content and rewrites the string to
  \<open>\mathrm{a{b}c}\<close>.
\<close>

theorem cleanLatex_braces_counterexample:
  "cleanLatex (backslash # js ''text{a{b}c}'') = backslash # js ''mathrm{a{b}c}'' \<and>
   cleanLatex_described no_brace (backslash # js ''text{a{b}c}'') = backslash # js ''text{a{b}c}''"
  by (simp add: cleanLatex_def cleanLatex_described_def trim_def is_white_space_def rx_text_def
      rx_displaystyle_def mathrm_def js_def backslash_def text_open_def displaystyle_def
      close_brace_def open_brace_def no_brace_def text_occurrence_def)

end
